theory Spec2Isabelle
  imports Complex_Main "HOL-Library.AList" "HOL-Library.Multiset" "HOL-Library.Sublist"
    "HOL-Library.Log_Nat"
begin

section \<open>Cell values\<close>

text \<open>
  Every cell of the tables read by \<^verbatim>\<open>train_short_vegetation.py\<close> is an IEEE double.
  The model keeps the three special values apart from the finite ones, because the
  script's behaviour turns on them: \<^verbatim>\<open>dropna\<close> removes NaN only, a comparison
  with NaN is false, and a division by zero yields NaN or an infinity instead of raising.
  A finite double is modelled by the real number it denotes: rounding of finite results,
  overflow and the sign of zero are not modelled (a zero divisor is read as +0).
\<close>

datatype fl = NaN | PInf | NInf | Fin real

fun isna :: "fl \<Rightarrow> bool" where
  "isna NaN = True"
| "isna _ = False"

fun isfinite :: "fl \<Rightarrow> bool" where
  "isfinite (Fin _) = True"
| "isfinite _ = False"

text \<open>The comparison \<^verbatim>\<open>a > b\<close> of two doubles: false as soon as one side is NaN.\<close>

fun fl_gt :: "fl \<Rightarrow> fl \<Rightarrow> bool" where
  "fl_gt NaN _ = False"
| "fl_gt _ NaN = False"
| "fl_gt PInf PInf = False"
| "fl_gt PInf _ = True"
| "fl_gt NInf _ = False"
| "fl_gt (Fin a) PInf = False"
| "fl_gt (Fin a) NInf = True"
| "fl_gt (Fin a) (Fin b) = (b < a)"

text \<open>The comparison \<^verbatim>\<open>a <= b\<close>: also false when one side is NaN.\<close>

fun fl_le :: "fl \<Rightarrow> fl \<Rightarrow> bool" where
  "fl_le NaN _ = False"
| "fl_le _ NaN = False"
| "fl_le NInf _ = True"
| "fl_le _ PInf = True"
| "fl_le PInf _ = False"
| "fl_le (Fin a) NInf = False"
| "fl_le (Fin a) (Fin b) = (a \<le> b)"

fun fl_neg :: "fl \<Rightarrow> fl" where
  "fl_neg NaN = NaN"
| "fl_neg PInf = NInf"
| "fl_neg NInf = PInf"
| "fl_neg (Fin a) = Fin (- a)"

fun fl_add :: "fl \<Rightarrow> fl \<Rightarrow> fl" where
  "fl_add NaN _ = NaN"
| "fl_add _ NaN = NaN"
| "fl_add PInf NInf = NaN"
| "fl_add NInf PInf = NaN"
| "fl_add PInf _ = PInf"
| "fl_add _ PInf = PInf"
| "fl_add NInf _ = NInf"
| "fl_add _ NInf = NInf"
| "fl_add (Fin a) (Fin b) = Fin (a + b)"

definition fl_sub :: "fl \<Rightarrow> fl \<Rightarrow> fl" where
  "fl_sub a b = fl_add a (fl_neg b)"

text \<open>The sign of a value as the multiplication and division rules need it.\<close>

fun fl_mul :: "fl \<Rightarrow> fl \<Rightarrow> fl" where
  "fl_mul NaN _ = NaN"
| "fl_mul _ NaN = NaN"
| "fl_mul PInf PInf = PInf"
| "fl_mul PInf NInf = NInf"
| "fl_mul NInf PInf = NInf"
| "fl_mul NInf NInf = PInf"
| "fl_mul PInf (Fin b) = (if b = 0 then NaN else if 0 < b then PInf else NInf)"
| "fl_mul NInf (Fin b) = (if b = 0 then NaN else if 0 < b then NInf else PInf)"
| "fl_mul (Fin a) PInf = (if a = 0 then NaN else if 0 < a then PInf else NInf)"
| "fl_mul (Fin a) NInf = (if a = 0 then NaN else if 0 < a then NInf else PInf)"
| "fl_mul (Fin a) (Fin b) = Fin (a * b)"

fun fl_div :: "fl \<Rightarrow> fl \<Rightarrow> fl" where
  "fl_div NaN _ = NaN"
| "fl_div _ NaN = NaN"
| "fl_div PInf (Fin b) = (if 0 \<le> b then PInf else NInf)"
| "fl_div NInf (Fin b) = (if 0 \<le> b then NInf else PInf)"
| "fl_div PInf _ = NaN"
| "fl_div NInf _ = NaN"
| "fl_div (Fin a) PInf = Fin 0"
| "fl_div (Fin a) NInf = Fin 0"
| "fl_div (Fin a) (Fin b) =
     (if b = 0 then (if a = 0 then NaN else if 0 < a then PInf else NInf)
      else Fin (a / b))"

fun fl_sqrt :: "fl \<Rightarrow> fl" where
  "fl_sqrt NaN = NaN"
| "fl_sqrt PInf = PInf"
| "fl_sqrt NInf = NaN"
| "fl_sqrt (Fin a) = (if a < 0 then NaN else Fin (sqrt a))"

text \<open>\<^verbatim>\<open>x**2\<close>.\<close>

definition fl_sq :: "fl \<Rightarrow> fl" where
  "fl_sq x = fl_mul x x"

section \<open>Errors\<close>

text \<open>
  The exceptions the script can raise in the parts modelled here. The script defines
  no exception class of its own and has no \<^verbatim>\<open>raise\<close> statement: every error
  comes out of Python, pandas or TensorFlow.
\<close>

datatype error =
    KeyError
  | IndexError
  | UnboundLocalError
  | ValueError
  | InvalidIndexError
  | InvalidArgumentError

section \<open>Tables\<close>

text \<open>
  A pandas Series is a list of (time label, value) pairs in index order. A DataFrame
  read from one of the HDF5 files has one such column per site, keyed by the site
  identifier. A dictionary is an association list in insertion order;
  \<^const>\<open>AList.update\<close> is Python's item assignment (an existing key keeps its place).
\<close>

type_synonym series = "(nat \<times> fl) list"
type_synonym frame = "(string \<times> series) list"

text \<open>\<^verbatim>\<open>frame[i]\<close>: the column of site \<open>i\<close>, a KeyError when there is none.\<close>

definition getcol :: "frame \<Rightarrow> string \<Rightarrow> error + series" where
  "getcol fr i = (case map_of fr i of None \<Rightarrow> Inl KeyError | Some s \<Rightarrow> Inr s)"

subsection \<open>Site catalog (lines 66 to 68 of main)\<close>

text \<open>
  The site table has one row per site: its identifier (the index) and its metadata
  fields, \<open>None\<close> for a missing field. \<^verbatim>\<open>dropna(how = "any")\<close> walks the rows in
  order and keeps those without a missing field; \<^verbatim>\<open>.index\<close> reads the identifiers.
\<close>

fun dropna_any :: "('i \<times> 'a option list) list \<Rightarrow> ('i \<times> 'a option list) list" where
  "dropna_any [] = []"
| "dropna_any ((i, row) # rest) =
     (if None \<in> set row then dropna_any rest else (i, row) # dropna_any rest)"

definition sitreq_of :: "(string \<times> 'a option list) list \<Rightarrow> string list" where
  "sitreq_of flxsit = map fst (dropna_any flxsit)"

subsection \<open>Loading the feature and target tables (lines 134 to 151)\<close>

text \<open>
  \<open>filabs\<close>, \<open>filanm\<close> and \<open>filtar\<close> are the three dictionaries of the script with
  \<^verbatim>\<open>pd.read_hdf\<close> already applied to each path: a key is paired with the table stored
  under its path. The loop runs over the keys of \<open>filabs\<close> and looks each key up in
  \<open>filanm\<close>.
\<close>

fun load_inpdat ::
  "(string \<times> frame) list \<Rightarrow> (string \<times> frame) list \<Rightarrow> (string \<times> frame) list
    \<Rightarrow> error + (string \<times> frame) list" where
  "load_inpdat [] filanm inpdat = Inr inpdat"
| "load_inpdat ((i, tmpabs) # rest) filanm inpdat =
     (case map_of filanm i of
        None \<Rightarrow> Inl KeyError
      | Some tmpanm \<Rightarrow>
          load_inpdat rest filanm
            (AList.update (i @ ''anm'') tmpanm (AList.update i tmpabs inpdat)))"

text \<open>\<^verbatim>\<open>tmptar[tmptar > 1] = 1.0\<close>, cell by cell.\<close>

definition clamp :: "fl \<Rightarrow> fl" where
  "clamp v = (if fl_gt v (Fin 1) then Fin 1 else v)"

definition clamp_series :: "series \<Rightarrow> series" where
  "clamp_series s = map (\<lambda>(t, v). (t, clamp v)) s"

definition clamp_frame :: "frame \<Rightarrow> frame" where
  "clamp_frame fr = map (\<lambda>(i, s). (i, clamp_series s)) fr"

fun load_tardat :: "(string \<times> frame) list \<Rightarrow> (string \<times> frame) list \<Rightarrow> (string \<times> frame) list" where
  "load_tardat [] tardat = tardat"
| "load_tardat ((i, tmptar) # rest) tardat =
     load_tardat rest (AList.update i (clamp_frame tmptar) tardat)"

subsection \<open>The per-site table (lines 158 to 174)\<close>

text \<open>
  A per-site table is a list of rows, each a time label with the cells of the row in
  column order: one cell per key of \<open>inpdat\<close>, then the target. The columns take the
  dictionary keys as labels, so every site's table has the same columns in the same
  order and a row is identified with the list of its cells.
\<close>

type_synonym table = "(nat \<times> fl list) list"

definition lookup_cell :: "series \<Rightarrow> nat \<Rightarrow> fl" where
  "lookup_cell s t = (case map_of s t of None \<Rightarrow> NaN | Some v \<Rightarrow> v)"

text \<open>
  \<^verbatim>\<open>pd.concat(lsttmp, axis = 1)\<close>: an outer join on the time index. Series with the
  same index are laid side by side, position by position. Otherwise pandas reindexes
  every series on the union of the labels, which it refuses for a series with a repeated
  label, and a label a series does not have gives NaN in its column. The union is taken
  in ascending order here; no statement below depends on that order.
\<close>

definition concat_axis1 :: "series list \<Rightarrow> error + table" where
  "concat_axis1 lsttmp =
     (case map (map fst) lsttmp of
        [] \<Rightarrow> Inl ValueError
      | ix # ixs \<Rightarrow>
          if list_all (\<lambda>ix'. ix' = ix) ixs
          then Inr (map (\<lambda>k. (ix ! k, map (\<lambda>s. snd (s ! k)) lsttmp)) [0..<length ix])
          else if list_all distinct (ix # ixs)
          then Inr (map (\<lambda>t. (t, map (\<lambda>s. lookup_cell s t) lsttmp))
                      (sort (remdups (concat (ix # ixs)))))
          else Inl InvalidIndexError)"

text \<open>\<^verbatim>\<open>dattmp.replace(to_replace = x, value = np.nan)\<close>.\<close>

definition replace_cell :: "real \<Rightarrow> fl \<Rightarrow> fl" where
  "replace_cell x v = (if v = Fin x then NaN else v)"

definition replace_tbl :: "real \<Rightarrow> table \<Rightarrow> table" where
  "replace_tbl x dattmp = map (\<lambda>(t, row). (t, map (replace_cell x) row)) dattmp"

text \<open>\<^verbatim>\<open>dattmp.dropna(axis = 0, how = "any")\<close>.\<close>

definition dropna :: "('i \<times> fl list) list \<Rightarrow> ('i \<times> fl list) list" where
  "dropna dattmp = filter (\<lambda>(t, row). list_all (\<lambda>v. \<not> isna v) row) dattmp"

text \<open>The inner loop over \<^verbatim>\<open>inpdat.keys()\<close>: the column of site \<open>i\<close> in every table.\<close>

fun site_features :: "(string \<times> frame) list \<Rightarrow> string \<Rightarrow> error + series list" where
  "site_features [] i = Inr []"
| "site_features ((j, fr) # rest) i =
     (case getcol fr i of
        Inl e \<Rightarrow> Inl e
      | Inr tmpvar \<Rightarrow>
          (case site_features rest i of
             Inl e \<Rightarrow> Inl e
           | Inr lsttmp \<Rightarrow> Inr (tmpvar # lsttmp)))"

text \<open>
  The body of the loop over the sites. \<^verbatim>\<open>list(tardat.keys())[0]\<close> is the first key of
  the target dictionary, an IndexError when the dictionary is empty.
\<close>

definition h5totf_site ::
  "(string \<times> frame) list \<Rightarrow> (string \<times> frame) list \<Rightarrow> string \<Rightarrow> error + table" where
  "h5totf_site inpdat tardat i =
     (case site_features inpdat i of
        Inl e \<Rightarrow> Inl e
      | Inr lsttmp \<Rightarrow>
          (case tardat of
             [] \<Rightarrow> Inl IndexError
           | (k, tarfr) # _ \<Rightarrow>
               (case getcol tarfr i of
                  Inl e \<Rightarrow> Inl e
                | Inr tartmp \<Rightarrow>
                    (case concat_axis1 (lsttmp @ [tartmp]) of
                       Inl e \<Rightarrow> Inl e
                     | Inr dattmp \<Rightarrow>
                         Inr (dropna (replace_tbl (- 999) (replace_tbl (- 9999) dattmp)))))))"

fun site_loop ::
  "(string \<times> frame) list \<Rightarrow> (string \<times> frame) list \<Rightarrow> string list \<Rightarrow> table list
    \<Rightarrow> error + table list" where
  "site_loop inpdat tardat [] datlst = Inr datlst"
| "site_loop inpdat tardat (i # rest) datlst =
     (case h5totf_site inpdat tardat i of
        Inl e \<Rightarrow> Inl e
      | Inr dattmp \<Rightarrow> site_loop inpdat tardat rest (datlst @ [dattmp]))"

subsection \<open>The joined corpus (lines 134 to 185)\<close>

text \<open>
  \<^verbatim>\<open>del dattmp\<close> raises UnboundLocalError when the site loop never ran.
  \<^verbatim>\<open>pd.concat(datlst, ignore_index = True)\<close> stacks the per-site tables in site order
  and forgets the time labels; the second \<^verbatim>\<open>dropna\<close> and \<^verbatim>\<open>reset_index\<close> follow.
\<close>

definition h5totf_join ::
  "(string \<times> frame) list \<Rightarrow> (string \<times> frame) list \<Rightarrow> (string \<times> frame) list \<Rightarrow> string list
    \<Rightarrow> error + (nat \<times> fl list list)" where
  "h5totf_join filabs filanm filtar sitreq =
     (case load_inpdat filabs filanm [] of
        Inl e \<Rightarrow> Inl e
      | Inr inpdat \<Rightarrow>
          (case site_loop inpdat (load_tardat filtar []) sitreq [] of
             Inl e \<Rightarrow> Inl e
           | Inr datlst \<Rightarrow>
               if sitreq = [] then Inl UnboundLocalError
               else Inr (length inpdat,
                         map snd (dropna (concat datlst)))))"

subsection \<open>Shuffling (line 190, lines 217 and 219)\<close>

text \<open>
  \<^verbatim>\<open>datfin.sample(frac = 1)\<close> and \<^verbatim>\<open>Dataset.shuffle\<close> draw a random order. The draw
  is an input of the model: a list of positions, and the rows are read in that order.
  The random generator's contract is that the list is a permutation of the positions
  of the table; the statements that need it assume it.
\<close>

definition reorder :: "nat list \<Rightarrow> 'a list \<Rightarrow> 'a list" where
  "reorder p xs = map (\<lambda>k. xs ! k) p"

record rng =
  sample_order :: "nat list"
  train_order :: "nat list"
  test_order :: "nat list"

subsection \<open>Normalisation (lines 195 to 200)\<close>

text \<open>
  NumPy sorts NaN behind every number. After \<^verbatim>\<open>dropna\<close> a column holds no NaN, so
  the place of NaN is here only to make the order total.
\<close>

definition fl_before :: "fl \<Rightarrow> fl \<Rightarrow> bool" where
  "fl_before a b = (isna b \<or> fl_le a b)"

fun insert_fl :: "fl \<Rightarrow> fl list \<Rightarrow> fl list" where
  "insert_fl x [] = [x]"
| "insert_fl x (y # ys) = (if fl_before x y then x # y # ys else y # insert_fl x ys)"

fun sort_fl :: "fl list \<Rightarrow> fl list" where
  "sort_fl [] = []"
| "sort_fl (x # xs) = insert_fl x (sort_fl xs)"

text \<open>
  \<^verbatim>\<open>quantile(q)\<close> of one column with pandas' default linear interpolation, for
  \<open>0 \<le> q \<le> 1\<close> (the script asks for 0.05 and 0.95): the value at position
  \<open>(n - 1) * q\<close> of the sorted column, interpolated between the two neighbours when the
  position is not whole. The quantile of an empty column is NaN.
\<close>

definition quantile :: "real \<Rightarrow> fl list \<Rightarrow> fl" where
  "quantile q col =
     (if col = [] then NaN
      else
        let srt = sort_fl col;
            h = real (length col - 1) * q;
            lo = nat \<lfloor>h\<rfloor>;
            hi = nat \<lceil>h\<rceil>
        in if lo = hi then srt ! lo
           else fl_add (srt ! lo) (fl_mul (fl_sub (srt ! hi) (srt ! lo)) (Fin (h - real lo))))"

definition column :: "nat \<Rightarrow> fl list list \<Rightarrow> fl list" where
  "column c rows = map (\<lambda>r. r ! c) rows"

text \<open>
  \<open>ncol\<close> is the number of feature columns and every row has \<open>ncol + 1\<close> cells, the
  target last. \<^verbatim>\<open>datfin.pop\<close> takes the target column out; \<^verbatim>\<open>datfin/datmax\<close> divides
  every cell by the 0.95 quantile of its column. The result is the list the script hands
  to \<^verbatim>\<open>from_tensor_slices\<close>, with the two quantile vectors.
\<close>

definition h5totf_norm ::
  "nat \<Rightarrow> fl list list \<Rightarrow> fl list \<times> fl list \<times> (fl list \<times> fl) list" where
  "h5totf_norm ncol rows =
     (let tarval = map last rows;
          datfin = map butlast rows;
          datmin = map (\<lambda>c. quantile (5 / 100) (column c datfin)) [0..<ncol];
          datmax = map (\<lambda>c. quantile (95 / 100) (column c datfin)) [0..<ncol];
          datfin = map (\<lambda>r. map (\<lambda>(v, m). fl_div v m) (zip r datmax)) datfin
      in (datmin, datmax, zip datfin tarval))"

subsection \<open>The split index (line 210)\<close>

text \<open>
  \<^verbatim>\<open>int((trnper/100) * len(datfin))\<close> is computed in double precision, and the
  result is an integer, so rounding decides it and is modelled here exactly. A finite
  double is a pair \<open>(m, e)\<close> standing for \<open>m * 2^e\<close>, with \<open>m\<close> of at most 53 bits; the
  exponent range is not modelled (the values are far inside it).
  \<open>rne num den\<close> is the integer nearest to \<open>num/den\<close>, ties to even, for \<open>0 < den\<close>.
\<close>

definition rne :: "int \<Rightarrow> int \<Rightarrow> int" where
  "rne num den =
     (let q = num div den; r = num mod den
      in if 2 * r < den then q
         else if den < 2 * r then q + 1
         else if even q then q else q + 1)"

text \<open>\<open>\<lfloor>log\<^sub>2 (num/den)\<rfloor>\<close> for positive \<open>num\<close> and \<open>den\<close>.\<close>

definition ilog2 :: "int \<Rightarrow> int \<Rightarrow> int" where
  "ilog2 num den =
     (let s = bitlen num - bitlen den
      in if (if 0 \<le> s then den * 2 ^ nat s \<le> num else den \<le> num * 2 ^ nat (- s))
         then s else s - 1)"

text \<open>The double nearest to \<open>num/den\<close> (\<open>0 < den\<close>), ties to even.\<close>

definition round_dbl :: "int \<Rightarrow> int \<Rightarrow> int \<times> int" where
  "round_dbl num den =
     (if num = 0 then (0, 0)
      else
        let e = ilog2 \<bar>num\<bar> den - 52
        in (if 0 \<le> e then rne num (den * 2 ^ nat e) else rne (num * 2 ^ nat (- e)) den, e))"

text \<open>\<^verbatim>\<open>int(x)\<close> of a double: the fraction is cut off, towards zero.\<close>

definition trunc_dbl :: "int \<times> int \<Rightarrow> int" where
  "trunc_dbl x =
     (case x of (m, e) \<Rightarrow>
        if 0 \<le> e then m * 2 ^ nat e
        else if 0 \<le> m then m div 2 ^ nat (- e)
        else - ((- m) div 2 ^ nat (- e)))"

text \<open>
  \<open>trnper\<close> is an integer, as the docstring says. \<^verbatim>\<open>trnper/100\<close> is Python's true
  division, correctly rounded; the length is converted to a double; the product of the
  two doubles is rounded once more.
\<close>

definition trnsiz_of :: "int \<Rightarrow> nat \<Rightarrow> int" where
  "trnsiz_of trnper n =
     (case round_dbl trnper 100 of (m1, e1) \<Rightarrow>
        case round_dbl (int n) 1 of (m2, e2) \<Rightarrow>
          case round_dbl (m1 * m2) 1 of (m3, e3) \<Rightarrow>
            trunc_dbl (m3, e1 + e2 + e3))"

subsection \<open>Splitting and batching (lines 206 to 226)\<close>

text \<open>
  The dataset operations of TensorFlow on a finite dataset, read as a list.
  \<^verbatim>\<open>take\<close> with a negative count takes everything and \<^verbatim>\<open>skip\<close> with a negative
  count skips everything; a count beyond the end is cut to the end.
  \<^verbatim>\<open>shuffle\<close> refuses a buffer size that is not positive; here the buffer is as
  large as the partition, so every order can come out. \<^verbatim>\<open>batch\<close> refuses a batch
  size that is not positive.
\<close>

definition ds_take :: "int \<Rightarrow> 'a list \<Rightarrow> 'a list" where
  "ds_take n xs = (if n < 0 then xs else take (nat n) xs)"

definition ds_skip :: "int \<Rightarrow> 'a list \<Rightarrow> 'a list" where
  "ds_skip n xs = (if n < 0 then [] else drop (nat n) xs)"

definition ds_shuffle :: "int \<Rightarrow> nat list \<Rightarrow> 'a list \<Rightarrow> error + 'a list" where
  "ds_shuffle buffer p xs = (if buffer \<le> 0 then Inl InvalidArgumentError else Inr (reorder p xs))"

function chunks :: "nat \<Rightarrow> 'a list \<Rightarrow> 'a list list" where
  "chunks n xs = (if n = 0 \<or> xs = [] then [] else take n xs # chunks n (drop n xs))"
  by pat_completeness auto
termination
  by (relation "measure (\<lambda>(n, xs). length xs)") auto

declare chunks.simps [simp del]

definition ds_batch :: "int \<Rightarrow> 'a list \<Rightarrow> error + 'a list list" where
  "ds_batch batchn xs = (if batchn \<le> 0 then Inl InvalidArgumentError else Inr (chunks (nat batchn) xs))"

text \<open>
  Lines 209 to 214 on the dataset \<open>fullda\<close>, whose length is \<^verbatim>\<open>len(datfin)\<close>:
  the two partitions as \<^verbatim>\<open>take\<close> and \<^verbatim>\<open>skip\<close> leave them.
\<close>

definition h5totf_takeskip :: "int \<Rightarrow> 'a list \<Rightarrow> 'a list \<times> 'a list" where
  "h5totf_takeskip trnper fullda =
     (let trnsiz = trnsiz_of trnper (length fullda)
      in (ds_take trnsiz fullda, ds_skip trnsiz fullda))"

text \<open>Lines 216 to 219: each partition is shuffled again when the flag is set.\<close>

definition h5totf_partition ::
  "bool \<Rightarrow> int \<Rightarrow> rng \<Rightarrow> 'a list \<Rightarrow> error + ('a list \<times> 'a list)" where
  "h5totf_partition shufle trnper g fullda =
     (case h5totf_takeskip trnper fullda of
        (retn01, retn02) \<Rightarrow>
          if shufle
          then (let trnsiz = trnsiz_of trnper (length fullda);
                    tstsiz = int (length fullda) - trnsiz
                in case ds_shuffle trnsiz (train_order g) retn01 of
                     Inl e \<Rightarrow> Inl e
                   | Inr retn01 \<Rightarrow>
                       (case ds_shuffle tstsiz (test_order g) retn02 of
                          Inl e \<Rightarrow> Inl e
                        | Inr retn02 \<Rightarrow> Inr (retn01, retn02)))
          else Inr (retn01, retn02))"

text \<open>Lines 221 to 226: batching.\<close>

definition h5totf_split ::
  "bool \<Rightarrow> int \<Rightarrow> int \<Rightarrow> rng \<Rightarrow> 'a list \<Rightarrow> error + ('a list list \<times> 'a list list)" where
  "h5totf_split shufle batchn trnper g fullda =
     (case h5totf_partition shufle trnper g fullda of
        Inl e \<Rightarrow> Inl e
      | Inr (retn01, retn02) \<Rightarrow>
          (case ds_batch batchn retn01 of
             Inl e \<Rightarrow> Inl e
           | Inr retn01 \<Rightarrow>
               (case ds_batch batchn retn02 of
                  Inl e \<Rightarrow> Inl e
                | Inr retn02 \<Rightarrow> Inr (retn01, retn02))))"

subsection \<open>The whole of h5totf\<close>

definition h5totf ::
  "(string \<times> frame) list \<Rightarrow> (string \<times> frame) list \<Rightarrow> (string \<times> frame) list \<Rightarrow> string list
    \<Rightarrow> bool \<Rightarrow> int \<Rightarrow> int \<Rightarrow> rng
    \<Rightarrow> error + ((fl list \<times> fl) list list \<times> (fl list \<times> fl) list list \<times> fl list \<times> fl list)" where
  "h5totf filabs filanm filtar sitreq shufle batchn trnper g =
     (case h5totf_join filabs filanm filtar sitreq of
        Inl e \<Rightarrow> Inl e
      | Inr (ncol, datfin) \<Rightarrow>
          (let datfin = (if shufle then reorder (sample_order g) datfin else datfin)
           in case h5totf_norm ncol datfin of
                (datmin, datmax, fullda) \<Rightarrow>
                  (case h5totf_split shufle batchn trnper g fullda of
                     Inl e \<Rightarrow> Inl e
                   | Inr (retn01, retn02) \<Rightarrow> Inr (retn01, retn02, datmin, datmax))))"

section \<open>The loss (lines 229 to 273)\<close>

text \<open>
  \<open>actual\<close> and \<open>predct\<close> are tensors of rank one and of the same length, read as
  lists. \<^verbatim>\<open>reduce_mean\<close> of an empty tensor is 0/0; \<^verbatim>\<open>reduce_std\<close> is the
  population standard deviation, the square root of the mean squared deviation.
\<close>

definition fl_sum :: "fl list \<Rightarrow> fl" where
  "fl_sum xs = foldl fl_add (Fin 0) xs"

definition reduce_mean :: "fl list \<Rightarrow> fl" where
  "reduce_mean xs = fl_div (fl_sum xs) (Fin (real (length xs)))"

definition reduce_std :: "fl list \<Rightarrow> fl" where
  "reduce_std xs =
     (let m = reduce_mean xs
      in fl_sqrt (reduce_mean (map (\<lambda>x. fl_sq (fl_sub x m)) xs)))"

definition kge :: "fl list \<Rightarrow> fl list \<Rightarrow> fl" where
  "kge actual predct =
     (let acmean = reduce_mean actual;
          pdmean = reduce_mean predct;
          acmdev = map (\<lambda>x. fl_sub x acmean) actual;
          pdmdev = map (\<lambda>x. fl_sub x pdmean) predct;
          cornum = reduce_mean (map (\<lambda>(x, y). fl_mul x y) (zip acmdev pdmdev));
          corden = fl_mul (reduce_std acmdev) (reduce_std pdmdev);
          corcof = fl_div cornum corden;
          cratio = fl_sq (fl_sub corcof (Fin 1));
          actstd = reduce_std actual;
          prestd = reduce_std predct;
          stdrat = fl_div prestd actstd;
          vratio = fl_sq (fl_sub stdrat (Fin 1));
          menrat = fl_div pdmean acmean;
          bratio = fl_sq (fl_sub menrat (Fin 1));
          kgeval = fl_sub (Fin 1) (fl_sqrt (fl_add (fl_add cratio vratio) bratio))
      in fl_sub (Fin 1) kgeval)"

section \<open>Properties of the joined corpus\<close>

text \<open>
  A cell counts as present when it is neither NaN nor one of the two sentinels.
\<close>

definition valid :: "fl \<Rightarrow> bool" where
  "valid v = (v \<noteq> NaN \<and> v \<noteq> Fin (- 9999) \<and> v \<noteq> Fin (- 999))"

lemma isna_iff: "isna v \<longleftrightarrow> v = NaN"
  by (cases v) simp_all

lemma replace_valid: "\<not> isna (replace_cell (- 999) (replace_cell (- 9999) v)) \<longleftrightarrow> valid v"
  by (simp add: replace_cell_def valid_def isna_iff)

lemma replace_keep: "valid v \<Longrightarrow> replace_cell (- 999) (replace_cell (- 9999) v) = v"
  by (simp add: replace_cell_def valid_def)

lemma clamp_valid: "valid (clamp v) \<longleftrightarrow> valid v"
  by (cases v) (auto simp: clamp_def valid_def)

lemma lookup_cell_distinct:
  assumes "distinct (map fst s)" and "k < length s"
  shows "lookup_cell s (fst (s ! k)) = snd (s ! k)"
proof -
  have "(fst (s ! k), snd (s ! k)) \<in> set s" using assms(2) by simp
  then have "map_of s (fst (s ! k)) = Some (snd (s ! k))"
    using assms(1) by (rule_tac map_of_is_SomeI)
  then show ?thesis by (simp add: lookup_cell_def)
qed

lemma concat_axis1_distinct:
  assumes ne: "lsttmp \<noteq> []" and dist: "\<forall>s\<in>set lsttmp. distinct (map fst s)"
  shows "\<exists>tb. concat_axis1 lsttmp = Inr tb \<and> distinct (map fst tb)
           \<and> set (map fst tb) = (\<Union>s\<in>set lsttmp. fst ` set s)
           \<and> (\<forall>(t, row)\<in>set tb. row = map (\<lambda>s. lookup_cell s t) lsttmp)"
proof -
  obtain s0 ss where l: "lsttmp = s0 # ss" using ne by (cases lsttmp) auto
  define ix where "ix = map fst s0"
  define ixs where "ixs = map (map fst) ss"
  have m: "map (map fst) lsttmp = ix # ixs" by (simp add: l ix_def ixs_def)
  have dall: "list_all distinct (ix # ixs)"
    using dist by (simp add: l ix_def ixs_def list_all_iff)
  show ?thesis
  proof (cases "list_all (\<lambda>ix'. ix' = ix) ixs")
    case True
    then have same: "\<And>s. s \<in> set lsttmp \<Longrightarrow> map fst s = ix"
      by (auto simp: l ix_def ixs_def list_all_iff)
    define tb where "tb = map (\<lambda>k. (ix ! k, map (\<lambda>s. snd (s ! k)) lsttmp)) [0..<length ix]"
    have c: "concat_axis1 lsttmp = Inr tb"
      using True by (simp add: concat_axis1_def m tb_def)
    have f: "map fst tb = ix"
      by (simp add: tb_def comp_def map_nth)
    have d: "distinct (map fst tb)" using f dall by simp
    have u: "set (map fst tb) = (\<Union>s\<in>set lsttmp. fst ` set s)"
    proof -
      have "\<And>s. s \<in> set lsttmp \<Longrightarrow> fst ` set s = set ix"
        using same by (metis set_map)
      then have "(\<Union>s\<in>set lsttmp. fst ` set s) = set ix" using ne by (auto simp: l)
      then show ?thesis using f by simp
    qed
    have r: "\<forall>(t, row)\<in>set tb. row = map (\<lambda>s. lookup_cell s t) lsttmp"
    proof (clarify)
      fix t row assume "(t, row) \<in> set tb"
      then obtain k where k: "k < length ix" "t = ix ! k" "row = map (\<lambda>s. snd (s ! k)) lsttmp"
        by (auto simp: tb_def)
      have "\<And>s. s \<in> set lsttmp \<Longrightarrow> snd (s ! k) = lookup_cell s t"
      proof -
        fix s assume s: "s \<in> set lsttmp"
        have e: "map fst s = ix" using same s by simp
        then have len: "k < length s" using k(1) by (metis length_map)
        have "fst (s ! k) = t" using e len k(2) by (metis nth_map)
        then show "snd (s ! k) = lookup_cell s t"
          using lookup_cell_distinct[of s k] dist s len by auto
      qed
      then show "row = map (\<lambda>s. lookup_cell s t) lsttmp" using k(3) by simp
    qed
    show ?thesis using c d u r by blast
  next
    case False
    define tb where "tb = map (\<lambda>t. (t, map (\<lambda>s. lookup_cell s t) lsttmp)) (sort (remdups (concat (ix # ixs))))"
    have c: "concat_axis1 lsttmp = Inr tb"
      using False dall by (simp add: concat_axis1_def m tb_def)
    have f: "map fst tb = sort (remdups (concat (ix # ixs)))"
      by (simp add: tb_def comp_def)
    have d: "distinct (map fst tb)" using f by simp
    have "set (concat (ix # ixs)) = (\<Union>s\<in>set lsttmp. fst ` set s)"
      by (auto simp: l ix_def ixs_def)
    then have u: "set (map fst tb) = (\<Union>s\<in>set lsttmp. fst ` set s)" using f by simp
    have r: "\<forall>(t, row)\<in>set tb. row = map (\<lambda>s. lookup_cell s t) lsttmp"
      by (auto simp: tb_def)
    show ?thesis using c d u r by blast
  qed
qed


definition lookup_series :: "frame \<Rightarrow> string \<Rightarrow> series" where
  "lookup_series fr i = (case map_of fr i of None \<Rightarrow> [] | Some s \<Rightarrow> s)"

definition raw_columns :: "(string \<times> frame) list \<Rightarrow> frame \<Rightarrow> string \<Rightarrow> series list" where
  "raw_columns inpdat tarfr i = map (\<lambda>(j, fr). lookup_series fr i) inpdat @ [lookup_series tarfr i]"

definition complete_steps :: "series list \<Rightarrow> nat set" where
  "complete_steps cols = {t. \<forall>s\<in>set cols. \<exists>v. (t, v) \<in> set s \<and> valid v}"

lemma site_features_present:
  assumes "\<forall>(j, fr)\<in>set inpdat. map_of fr i \<noteq> None"
  shows "site_features inpdat i = Inr (map (\<lambda>(j, fr). lookup_series fr i) inpdat)"
  using assms
  by (induction inpdat) (auto simp: getcol_def lookup_series_def split: option.splits)

lemma getcol_clamp_frame:
  assumes "map_of tarfr i \<noteq> None"
  shows "getcol (clamp_frame tarfr) i = Inr (clamp_series (lookup_series tarfr i))"
proof -
  have "map_of (clamp_frame tarfr) i = map_option clamp_series (map_of tarfr i)"
    unfolding clamp_frame_def by (induction tarfr) auto
  then show ?thesis using assms by (auto simp: getcol_def lookup_series_def)
qed

lemma fst_clamp_series: "map fst (clamp_series s) = map fst s"
  by (simp add: clamp_series_def comp_def case_prod_beta)

lemma valid_clamp_series:
  "(\<exists>v. (t, v) \<in> set (clamp_series s) \<and> valid v) \<longleftrightarrow> (\<exists>v. (t, v) \<in> set s \<and> valid v)"
  by (force simp: clamp_series_def clamp_valid)

lemma valid_lookup_cell:
  assumes "distinct (map fst s)"
  shows "valid (lookup_cell s t) \<longleftrightarrow> (\<exists>v. (t, v) \<in> set s \<and> valid v)"
proof (cases "map_of s t")
  case None
  then have "\<And>v. (t, v) \<notin> set s" by (metis map_of_SomeD map_of_is_SomeI assms option.distinct(1))
  then show ?thesis using None by (simp add: lookup_cell_def valid_def)
next
  case (Some w)
  then have "\<And>v. (t, v) \<in> set s \<longleftrightarrow> v = w"
    using assms by (metis map_of_SomeD map_of_is_SomeI option.inject)
  then show ?thesis using Some by (simp add: lookup_cell_def)
qed

lemma dropna_replace:
  "dropna (replace_tbl (- 999) (replace_tbl (- 9999) tb)) = filter (\<lambda>(t, row). list_all valid row) tb"
proof (induction tb)
  case Nil
  show ?case by (simp add: dropna_def replace_tbl_def)
next
  case (Cons a tb)
  obtain t row where a: "a = (t, row)" by (cases a)
  have k: "list_all valid row \<Longrightarrow> map (replace_cell (- 999)) (map (replace_cell (- 9999)) row) = row"
    by (induction row) (simp_all add: replace_keep)
  have v: "list_all (\<lambda>v. \<not> isna v) (map (replace_cell (- 999)) (map (replace_cell (- 9999)) row)) = list_all valid row"
    by (induction row) (simp_all add: replace_valid)
  from Cons show ?case
    using k v by (simp add: dropna_def replace_tbl_def a)
qed

lemma complete_steps_clamp:
  "complete_steps (fs @ [clamp_series s]) = complete_steps (fs @ [s])"
  by (auto simp: complete_steps_def valid_clamp_series)

lemma lookup_cell_clamp: "lookup_cell (clamp_series s) t = clamp (lookup_cell s t)"
proof -
  have "map_of (clamp_series s) t = map_option clamp (map_of s t)"
    unfolding clamp_series_def by (induction s) auto
  then show ?thesis by (cases "map_of s t") (simp_all add: lookup_cell_def clamp_def)
qed

lemma h5totf_site_complete:
  assumes feat: "\<forall>(j, fr)\<in>set inpdat. map_of fr i \<noteq> None"
    and tar: "map_of tarfr i \<noteq> None"
    and dist: "\<forall>s\<in>set (raw_columns inpdat tarfr i). distinct (map fst s)"
  shows "\<exists>tb. h5totf_site inpdat ((k, clamp_frame tarfr) # rest) i = Inr tb
           \<and> distinct (map fst tb)
           \<and> set (map fst tb) = complete_steps (raw_columns inpdat tarfr i)
           \<and> (\<forall>(t, row)\<in>set tb. list_all valid row
                 \<and> row = map (\<lambda>(j, fr). lookup_cell (lookup_series fr i) t) inpdat
                         @ [clamp (lookup_cell (lookup_series tarfr i) t)])"
proof -
  define fs where "fs = map (\<lambda>(j, fr). lookup_series fr i) inpdat"
  define cols where "cols = fs @ [clamp_series (lookup_series tarfr i)]"
  have raw: "raw_columns inpdat tarfr i = fs @ [lookup_series tarfr i]"
    by (simp add: raw_columns_def fs_def)
  have dcols: "\<forall>s\<in>set cols. distinct (map fst s)"
    using dist by (auto simp: raw cols_def fst_clamp_series)
  have "cols \<noteq> []" by (simp add: cols_def)
  from concat_axis1_distinct[OF this dcols]
  obtain tb0 where tb0: "concat_axis1 cols = Inr tb0" "distinct (map fst tb0)"
    "set (map fst tb0) = (\<Union>s\<in>set cols. fst ` set s)"
    "\<forall>(t, row)\<in>set tb0. row = map (\<lambda>s. lookup_cell s t) cols"
    by blast
  define tb where "tb = filter (\<lambda>(t, row). list_all valid row) tb0"
  have run: "h5totf_site inpdat ((k, clamp_frame tarfr) # rest) i = Inr tb"
    using site_features_present[OF feat] getcol_clamp_frame[OF tar] tb0(1)
    by (simp add: h5totf_site_def fs_def[symmetric] cols_def[symmetric] dropna_replace tb_def)
  have d: "distinct (map fst tb)"
    unfolding tb_def using tb0(2) by (rule distinct_map_filter)
  have rows: "\<forall>(t, row)\<in>set tb. list_all valid row
      \<and> row = map (\<lambda>(j, fr). lookup_cell (lookup_series fr i) t) inpdat
              @ [clamp (lookup_cell (lookup_series tarfr i) t)]"
    using tb0(4) by (auto simp: tb_def cols_def fs_def lookup_cell_clamp comp_def case_prod_beta)
  have "set (map fst tb) = complete_steps cols"
  proof (rule set_eqI)
    fix t
    have "t \<in> set (map fst tb) \<longleftrightarrow> (\<exists>row. (t, row) \<in> set tb0 \<and> list_all valid row)"
      by (force simp: tb_def)
    also have "\<dots> \<longleftrightarrow> t \<in> set (map fst tb0) \<and> list_all valid (map (\<lambda>s. lookup_cell s t) cols)"
      using tb0(4) by force
    also have "\<dots> \<longleftrightarrow> t \<in> (\<Union>s\<in>set cols. fst ` set s) \<and> (\<forall>s\<in>set cols. valid (lookup_cell s t))"
      using tb0(3) by (simp add: list_all_iff)
    also have "\<dots> \<longleftrightarrow> t \<in> (\<Union>s\<in>set cols. fst ` set s) \<and> (\<forall>s\<in>set cols. \<exists>v. (t, v) \<in> set s \<and> valid v)"
      using dcols valid_lookup_cell by blast
    also have "\<dots> \<longleftrightarrow> (\<forall>s\<in>set cols. \<exists>v. (t, v) \<in> set s \<and> valid v)"
      using \<open>cols \<noteq> []\<close> by (cases cols) force+
    finally show "t \<in> set (map fst tb) \<longleftrightarrow> t \<in> complete_steps cols"
      by (simp add: complete_steps_def)
  qed
  then have "set (map fst tb) = complete_steps (raw_columns inpdat tarfr i)"
    by (simp add: cols_def raw complete_steps_clamp)
  with run d rows show ?thesis by blast
qed

lemma site_loop_all:
  assumes "\<forall>i\<in>set sitreq. \<exists>tb. h5totf_site inpdat tardat i = Inr tb \<and> P i tb"
  shows "\<exists>tbs. site_loop inpdat tardat sitreq datlst = Inr (datlst @ tbs) \<and> list_all2 P sitreq tbs"
  using assms
proof (induction sitreq arbitrary: datlst)
  case Nil
  then show ?case by simp
next
  case (Cons i sitreq)
  then obtain tb where tb: "h5totf_site inpdat tardat i = Inr tb" "P i tb" by auto
  from Cons.IH[of "datlst @ [tb]"] Cons.prems
  obtain tbs where "site_loop inpdat tardat sitreq (datlst @ [tb]) = Inr ((datlst @ [tb]) @ tbs)"
    "list_all2 P sitreq tbs" by auto
  then show ?case using tb by (intro exI[of _ "tb # tbs"]) simp
qed

lemma load_tardat_keep:
  "k \<notin> fst ` set filtar \<Longrightarrow> load_tardat filtar ((k, x) # tardat) = (k, x) # load_tardat filtar tardat"
  by (induction filtar arbitrary: tardat) auto

lemma load_tardat_first:
  assumes "distinct (map fst ((k, tarfr) # filtar))"
  shows "load_tardat ((k, tarfr) # filtar) [] = (k, clamp_frame tarfr) # load_tardat filtar []"
  using assms load_tardat_keep[of k filtar "clamp_frame tarfr" "[]"] by simp

lemma dropna_valid:
  assumes "\<forall>(t, row)\<in>set tb. list_all valid row"
  shows "dropna tb = tb"
proof -
  have "\<And>row. list_all valid row \<Longrightarrow> list_all (\<lambda>v. \<not> isna v) row"
    by (simp add: list_all_iff valid_def isna_iff)
  then show ?thesis using assms unfolding dropna_def by (intro filter_True) auto
qed

lemma length_concat_sum:
  assumes "list_all2 (\<lambda>i tb. length tb = f i) is tbs"
  shows "length (concat tbs) = sum_list (map f is)"
  using assms by (induction rule: list_all2_induct) auto

definition site_rows :: "(string \<times> frame) list \<Rightarrow> frame \<Rightarrow> string \<Rightarrow> table \<Rightarrow> bool" where
  "site_rows inpdat tarfr i tb \<longleftrightarrow>
     distinct (map fst tb)
     \<and> set (map fst tb) = complete_steps (raw_columns inpdat tarfr i)
     \<and> (\<forall>(t, row)\<in>set tb. list_all valid row
           \<and> row = map (\<lambda>(j, fr). lookup_cell (lookup_series fr i) t) inpdat
                   @ [clamp (lookup_cell (lookup_series tarfr i) t)])"

lemma h5totf_join_sites:
  assumes load: "load_inpdat filabs filanm [] = Inr inpdat"
    and tar: "filtar = (k, tarfr) # tars" "distinct (map fst filtar)"
    and sites: "sitreq \<noteq> []"
    and present: "\<forall>i\<in>set sitreq. (\<forall>(j, fr)\<in>set inpdat. map_of fr i \<noteq> None) \<and> map_of tarfr i \<noteq> None"
    and labels: "\<forall>i\<in>set sitreq. \<forall>s\<in>set (raw_columns inpdat tarfr i). distinct (map fst s)"
  shows "\<exists>datlst. h5totf_join filabs filanm filtar sitreq = Inr (length inpdat, map snd (concat datlst))
           \<and> list_all2 (site_rows inpdat tarfr) sitreq datlst"
proof -
  define tardat where "tardat = load_tardat filtar []"
  have td: "tardat = (k, clamp_frame tarfr) # load_tardat tars []"
    using tar load_tardat_first[of k tarfr tars] by (simp add: tardat_def)
  have "\<forall>i\<in>set sitreq. \<exists>tb. h5totf_site inpdat tardat i = Inr tb \<and> site_rows inpdat tarfr i tb"
  proof
    fix i assume i: "i \<in> set sitreq"
    show "\<exists>tb. h5totf_site inpdat tardat i = Inr tb \<and> site_rows inpdat tarfr i tb"
      unfolding td site_rows_def
      using h5totf_site_complete[of inpdat i tarfr k "load_tardat tars []"] present labels i
      by blast
  qed
  from site_loop_all[OF this, of "[]"]
  obtain datlst where dl: "site_loop inpdat tardat sitreq [] = Inr datlst"
    "list_all2 (site_rows inpdat tarfr) sitreq datlst"
    by auto
  have each: "\<And>tb. tb \<in> set datlst \<Longrightarrow> \<forall>(t, row)\<in>set tb. list_all valid row"
  proof -
    fix tb assume "tb \<in> set datlst"
    then obtain i where "site_rows inpdat tarfr i tb"
      using dl(2) by (metis in_set_conv_nth list_all2_conv_all_nth)
    then show "\<forall>(t, row)\<in>set tb. list_all valid row"
      unfolding site_rows_def by fastforce
  qed
  then have "\<forall>(t, row)\<in>set (concat datlst). list_all valid row"
    by fastforce
  then have keep: "dropna (concat datlst) = concat datlst"
    by (rule dropna_valid)
  have "h5totf_join filabs filanm filtar sitreq = Inr (length inpdat, map snd (concat datlst))"
    using load dl(1) sites by (simp add: h5totf_join_def tardat_def[symmetric] keep)
  with dl(2) show ?thesis by blast
qed

lemma site_rows_length:
  assumes "site_rows inpdat tarfr i tb"
  shows "length tb = card (complete_steps (raw_columns inpdat tarfr i))"
  using assms unfolding site_rows_def by (metis distinct_card length_map)

lemma in_concat_site:
  assumes "list_all2 P sitreq datlst" and "x \<in> set (concat datlst)"
  shows "\<exists>i\<in>set sitreq. \<exists>tb. P i tb \<and> x \<in> set tb"
  using assms by (induction rule: list_all2_induct) auto

text \<open>
  Claim C1. When every requested site has a column in every table and no series repeats
  a time label, the join succeeds; every row of the corpus has one cell per feature
  column and one for the target, none of them NaN or a sentinel; and the number of rows
  is the sum over the site list of the number of time labels at which every column of
  the site holds a present value.
\<close>

theorem h5totf_join_complete_rows:
  assumes "load_inpdat filabs filanm [] = Inr inpdat"
    and "filtar = (k, tarfr) # tars" and "distinct (map fst filtar)"
    and "sitreq \<noteq> []"
    and "\<forall>i\<in>set sitreq. (\<forall>(j, fr)\<in>set inpdat. map_of fr i \<noteq> None) \<and> map_of tarfr i \<noteq> None"
    and "\<forall>i\<in>set sitreq. \<forall>s\<in>set (raw_columns inpdat tarfr i). distinct (map fst s)"
  shows "\<exists>datfin. h5totf_join filabs filanm filtar sitreq = Inr (length inpdat, datfin)
           \<and> (\<forall>row\<in>set datfin. length row = length inpdat + 1 \<and> list_all valid row)
           \<and> length datfin = (\<Sum>i\<leftarrow>sitreq. card (complete_steps (raw_columns inpdat tarfr i)))"
proof -
  from h5totf_join_sites[OF assms]
  obtain datlst where run: "h5totf_join filabs filanm filtar sitreq = Inr (length inpdat, map snd (concat datlst))"
    and rel: "list_all2 (site_rows inpdat tarfr) sitreq datlst"
    by blast
  have rows: "\<forall>row\<in>set (map snd (concat datlst)). length row = length inpdat + 1 \<and> list_all valid row"
  proof
    fix row assume "row \<in> set (map snd (concat datlst))"
    then obtain t where "(t, row) \<in> set (concat datlst)" by force
    from in_concat_site[OF rel this]
    obtain i tb where "site_rows inpdat tarfr i tb" "(t, row) \<in> set tb" by blast
    then have "list_all valid row" and
      "row = map (\<lambda>(j, fr). lookup_cell (lookup_series fr i) t) inpdat
               @ [clamp (lookup_cell (lookup_series tarfr i) t)]"
      unfolding site_rows_def by fastforce+
    then show "length row = length inpdat + 1 \<and> list_all valid row" by simp
  qed
  have "list_all2 (\<lambda>i tb. length tb = card (complete_steps (raw_columns inpdat tarfr i))) sitreq datlst"
    using rel by (rule list_all2_mono) (rule site_rows_length)
  then have "length (concat datlst) = (\<Sum>i\<leftarrow>sitreq. card (complete_steps (raw_columns inpdat tarfr i)))"
    by (rule length_concat_sum)
  then have "length (map snd (concat datlst))
      = (\<Sum>i\<leftarrow>sitreq. card (complete_steps (raw_columns inpdat tarfr i)))"
    by simp
  with run rows show ?thesis by blast
qed

definition ex_abs :: frame where
  "ex_abs = [(''s1'', [(0, Fin 1), (1, Fin (- 999)), (2, Fin 3), (3, Fin 4)]),
             (''s2'', [(0, Fin 5), (1, Fin 6)])]"

definition ex_anm :: frame where
  "ex_anm = [(''s1'', [(0, Fin 0), (1, Fin 0), (2, Fin 0), (3, Fin (- 9999))]),
             (''s2'', [(0, Fin 0), (1, Fin 0)])]"

definition ex_tar :: frame where
  "ex_tar = [(''s1'', [(0, Fin 2), (1, Fin (1 / 2)), (2, NaN), (3, Fin 1)]),
             (''s2'', [(0, Fin (1 / 4)), (1, Fin 3)])]"

theorem h5totf_join_complete_rows_witness:
  "h5totf_join [(''ate'', ex_abs)] [(''ate'', ex_anm)] [(''str'', ex_tar)] [''s1'', ''s2'']
     = Inr (2, [[Fin 1, Fin 0, Fin 1], [Fin 5, Fin 0, Fin (1 / 4)], [Fin 6, Fin 0, Fin 1]])
   \<and> card (complete_steps (raw_columns [(''ate'', ex_abs), (''ateanm'', ex_anm)] ex_tar ''s1''))
     + card (complete_steps (raw_columns [(''ate'', ex_abs), (''ateanm'', ex_anm)] ex_tar ''s2'')) = 3"
proof -
  let ?inpdat = "[(''ate'', ex_abs), (''ateanm'', ex_anm)]"
  have run: "h5totf_join [(''ate'', ex_abs)] [(''ate'', ex_anm)] [(''str'', ex_tar)] [''s1'', ''s2'']
     = Inr (2, [[Fin 1, Fin 0, Fin 1], [Fin 5, Fin 0, Fin (1 / 4)], [Fin 6, Fin 0, Fin 1]])"
    by code_simp
  have h1: "load_inpdat [(''ate'', ex_abs)] [(''ate'', ex_anm)] [] = Inr ?inpdat"
    by simp
  have h2: "[(''str'', ex_tar)] = (''str'', ex_tar) # []" "distinct (map fst [(''str'', ex_tar)])"
    by simp_all
  have h3: "[''s1'', ''s2''] \<noteq> []" by simp
  have h4: "\<forall>i\<in>set [''s1'', ''s2'']. (\<forall>(j, fr)\<in>set ?inpdat. map_of fr i \<noteq> None) \<and> map_of ex_tar i \<noteq> None"
    by (simp add: ex_abs_def ex_anm_def ex_tar_def)
  have h5: "\<forall>i\<in>set [''s1'', ''s2'']. \<forall>s\<in>set (raw_columns ?inpdat ex_tar i). distinct (map fst s)"
    by (simp add: raw_columns_def lookup_series_def ex_abs_def ex_anm_def ex_tar_def)
  from h5totf_join_complete_rows[OF h1 h2 h3 h4 h5] run
  show ?thesis by simp
qed

lemma clamp_cases:
  "(fl_gt v (Fin 1) \<longrightarrow> clamp v = Fin 1) \<and> (fl_le v (Fin 1) \<longrightarrow> clamp v = v)"
  by (cases v) (simp_all add: clamp_def)

lemma lookup_cell_member:
  assumes "distinct (map fst s)" and "(t, v) \<in> set s"
  shows "lookup_cell s t = v"
  using assms by (simp add: lookup_cell_def)

lemma list_all2_pick:
  assumes "list_all2 P xs ys" and "x \<in> set xs"
  shows "\<exists>y\<in>set ys. P x y"
  using assms by (induction rule: list_all2_induct) auto

text \<open>
  Claim C4. A value above 1.0 is clamped to exactly 1.0 and a value at most 1.0 is left
  as it is (first conjunct). In the corpus, the target of every row is the clamped
  source value of some requested site at a time label kept by the join (second
  conjunct), and every source value at such a label is the target, clamped, of a row of
  the corpus (third conjunct).
\<close>

theorem target_clamped_in_corpus:
  assumes "load_inpdat filabs filanm [] = Inr inpdat"
    and "filtar = (k, tarfr) # tars" and "distinct (map fst filtar)"
    and "sitreq \<noteq> []"
    and "\<forall>i\<in>set sitreq. (\<forall>(j, fr)\<in>set inpdat. map_of fr i \<noteq> None) \<and> map_of tarfr i \<noteq> None"
    and "\<forall>i\<in>set sitreq. \<forall>s\<in>set (raw_columns inpdat tarfr i). distinct (map fst s)"
  shows "(\<forall>v. (fl_gt v (Fin 1) \<longrightarrow> clamp v = Fin 1) \<and> (fl_le v (Fin 1) \<longrightarrow> clamp v = v))
    \<and> (\<exists>datfin. h5totf_join filabs filanm filtar sitreq = Inr (length inpdat, datfin)
          \<and> (\<forall>row\<in>set datfin. \<exists>i\<in>set sitreq. \<exists>t v.
                 t \<in> complete_steps (raw_columns inpdat tarfr i)
                 \<and> (t, v) \<in> set (lookup_series tarfr i) \<and> last row = clamp v)
          \<and> (\<forall>i\<in>set sitreq. \<forall>t\<in>complete_steps (raw_columns inpdat tarfr i).
                 \<forall>v. (t, v) \<in> set (lookup_series tarfr i)
                   \<longrightarrow> (\<exists>row\<in>set datfin. last row = clamp v)))"
proof -
  from h5totf_join_sites[OF assms]
  obtain datlst where run: "h5totf_join filabs filanm filtar sitreq = Inr (length inpdat, map snd (concat datlst))"
    and rel: "list_all2 (site_rows inpdat tarfr) sitreq datlst"
    by blast
  have tdist: "\<And>i. i \<in> set sitreq \<Longrightarrow> distinct (map fst (lookup_series tarfr i))"
    using assms(6) by (simp add: raw_columns_def)
  have tmem: "\<And>i t. t \<in> complete_steps (raw_columns inpdat tarfr i)
      \<Longrightarrow> \<exists>v. (t, v) \<in> set (lookup_series tarfr i)"
    by (auto simp: complete_steps_def raw_columns_def)
  have a: "\<forall>row\<in>set (map snd (concat datlst)). \<exists>i\<in>set sitreq. \<exists>t v.
      t \<in> complete_steps (raw_columns inpdat tarfr i)
      \<and> (t, v) \<in> set (lookup_series tarfr i) \<and> last row = clamp v"
  proof
    fix row assume "row \<in> set (map snd (concat datlst))"
    then obtain t where "(t, row) \<in> set (concat datlst)" by force
    from in_concat_site[OF rel this]
    obtain i tb where i: "i \<in> set sitreq" and sr: "site_rows inpdat tarfr i tb" and m: "(t, row) \<in> set tb"
      by blast
    have t: "t \<in> complete_steps (raw_columns inpdat tarfr i)"
      using sr m unfolding site_rows_def by force
    then obtain v where v: "(t, v) \<in> set (lookup_series tarfr i)" using tmem by blast
    have "last row = clamp (lookup_cell (lookup_series tarfr i) t)"
      using sr m unfolding site_rows_def by fastforce
    then have "last row = clamp v"
      using lookup_cell_member[OF tdist[OF i] v] by simp
    with i t v show "\<exists>i\<in>set sitreq. \<exists>t v. t \<in> complete_steps (raw_columns inpdat tarfr i)
      \<and> (t, v) \<in> set (lookup_series tarfr i) \<and> last row = clamp v" by blast
  qed
  have b: "\<forall>i\<in>set sitreq. \<forall>t\<in>complete_steps (raw_columns inpdat tarfr i).
      \<forall>v. (t, v) \<in> set (lookup_series tarfr i)
        \<longrightarrow> (\<exists>row\<in>set (map snd (concat datlst)). last row = clamp v)"
  proof (intro ballI allI impI)
    fix i t v
    assume i: "i \<in> set sitreq" and t: "t \<in> complete_steps (raw_columns inpdat tarfr i)"
      and v: "(t, v) \<in> set (lookup_series tarfr i)"
    from list_all2_pick[OF rel i]
    obtain tb where tb: "tb \<in> set datlst" and sr: "site_rows inpdat tarfr i tb" by blast
    have "t \<in> set (map fst tb)" using sr t unfolding site_rows_def by simp
    then obtain row where m: "(t, row) \<in> set tb" by force
    have "last row = clamp (lookup_cell (lookup_series tarfr i) t)"
      using sr m unfolding site_rows_def by fastforce
    then have "last row = clamp v"
      using lookup_cell_member[OF tdist[OF i] v] by simp
    moreover have "row \<in> set (map snd (concat datlst))" using tb m by force
    ultimately show "\<exists>row\<in>set (map snd (concat datlst)). last row = clamp v" by blast
  qed
  from run a b clamp_cases show ?thesis by blast
qed

theorem target_clamped_in_corpus_witness:
  "clamp (Fin 2) = Fin 1 \<and> clamp (Fin (1 / 4)) = Fin (1 / 4)
   \<and> (\<exists>datfin. h5totf_join [(''ate'', ex_abs)] [(''ate'', ex_anm)] [(''str'', ex_tar)] [''s1'', ''s2'']
          = Inr (2, datfin)
        \<and> (\<exists>row\<in>set datfin. last row = clamp (Fin 3)))"
proof -
  let ?inpdat = "[(''ate'', ex_abs), (''ateanm'', ex_anm)]"
  have h1: "load_inpdat [(''ate'', ex_abs)] [(''ate'', ex_anm)] [] = Inr ?inpdat"
    by simp
  have h2: "[(''str'', ex_tar)] = (''str'', ex_tar) # []" "distinct (map fst [(''str'', ex_tar)])"
    by simp_all
  have h3: "[''s1'', ''s2''] \<noteq> []" by simp
  have h4: "\<forall>i\<in>set [''s1'', ''s2'']. (\<forall>(j, fr)\<in>set ?inpdat. map_of fr i \<noteq> None) \<and> map_of ex_tar i \<noteq> None"
    by (simp add: ex_abs_def ex_anm_def ex_tar_def)
  have h5: "\<forall>i\<in>set [''s1'', ''s2'']. \<forall>s\<in>set (raw_columns ?inpdat ex_tar i). distinct (map fst s)"
    by (simp add: raw_columns_def lookup_series_def ex_abs_def ex_anm_def ex_tar_def)
  note th = target_clamped_in_corpus[OF h1 h2 h3 h4 h5]
  have s2: "''s2'' \<in> set [''s1'', ''s2'']" by simp
  have step: "1 \<in> complete_steps (raw_columns ?inpdat ex_tar ''s2'')"
    by (simp add: complete_steps_def raw_columns_def lookup_series_def ex_abs_def ex_anm_def ex_tar_def valid_def)
  have src: "(1, Fin 3) \<in> set (lookup_series ex_tar ''s2'')"
    by (simp add: lookup_series_def ex_tar_def)
  from th s2 step src
  have "\<exists>datfin. h5totf_join [(''ate'', ex_abs)] [(''ate'', ex_anm)] [(''str'', ex_tar)] [''s1'', ''s2'']
          = Inr (length ?inpdat, datfin) \<and> (\<exists>row\<in>set datfin. last row = clamp (Fin 3))"
    by blast
  moreover have "clamp (Fin 2) = Fin 1 \<and> clamp (Fin (1 / 4)) = Fin (1 / 4)"
    using th by simp
  ultimately show ?thesis by (simp add: numeral_2_eq_2)
qed

text \<open>
  Claim C9. A target entry that is NaN, -9999.0 or -999.0 is not greater than 1, so the
  clamp leaves it as it is, and the time label that carries it is not in the site's
  table after the replacement of the sentinels and the dropping of incomplete rows.
\<close>

theorem missing_target_not_clamped:
  assumes "\<forall>(j, fr)\<in>set inpdat. map_of fr i \<noteq> None"
    and "map_of tarfr i \<noteq> None"
    and "\<forall>s\<in>set (raw_columns inpdat tarfr i). distinct (map fst s)"
    and "(t, v) \<in> set (lookup_series tarfr i)"
    and "v = NaN \<or> v = Fin (- 9999) \<or> v = Fin (- 999)"
  shows "\<not> fl_gt v (Fin 1) \<and> clamp v = v
    \<and> (\<exists>dattmp. h5totf_site inpdat ((k, clamp_frame tarfr) # rest) i = Inr dattmp
          \<and> t \<notin> fst ` set dattmp)"
proof -
  have gt: "\<not> fl_gt v (Fin 1)" using assms(5) by auto
  then have cl: "clamp v = v" by (simp add: clamp_def)
  from h5totf_site_complete[OF assms(1-3), of k rest]
  obtain tb where run: "h5totf_site inpdat ((k, clamp_frame tarfr) # rest) i = Inr tb"
    and lab: "set (map fst tb) = complete_steps (raw_columns inpdat tarfr i)"
    by blast
  have "t \<notin> complete_steps (raw_columns inpdat tarfr i)"
  proof
    assume "t \<in> complete_steps (raw_columns inpdat tarfr i)"
    then obtain w where w: "(t, w) \<in> set (lookup_series tarfr i)" "valid w"
      by (auto simp: complete_steps_def raw_columns_def)
    have d: "distinct (map fst (lookup_series tarfr i))"
      using assms(3) by (simp add: raw_columns_def)
    have "w = v" using lookup_cell_member[OF d w(1)] lookup_cell_member[OF d assms(4)] by simp
    then show False using w(2) assms(5) by (auto simp: valid_def)
  qed
  then have "t \<notin> fst ` set tb" using lab by simp
  with gt cl run show ?thesis by blast
qed

theorem missing_target_not_clamped_witness:
  "\<not> fl_gt NaN (Fin 1) \<and> clamp NaN = NaN
   \<and> (\<exists>dattmp. h5totf_site [(''ate'', ex_abs), (''ateanm'', ex_anm)] [(''str'', clamp_frame ex_tar)] ''s1''
          = Inr dattmp \<and> 2 \<notin> fst ` set dattmp)"
proof -
  let ?inpdat = "[(''ate'', ex_abs), (''ateanm'', ex_anm)]"
  have h1: "\<forall>(j, fr)\<in>set ?inpdat. map_of fr ''s1'' \<noteq> None"
    by (simp add: ex_abs_def ex_anm_def)
  have h2: "map_of ex_tar ''s1'' \<noteq> None" by (simp add: ex_tar_def)
  have h3: "\<forall>s\<in>set (raw_columns ?inpdat ex_tar ''s1''). distinct (map fst s)"
    by (simp add: raw_columns_def lookup_series_def ex_abs_def ex_anm_def ex_tar_def)
  have h4: "(2, NaN) \<in> set (lookup_series ex_tar ''s1'')"
    by (simp add: lookup_series_def ex_tar_def)
  have h5: "NaN = NaN \<or> NaN = Fin (- 9999) \<or> NaN = Fin (- 999)" by simp
  from missing_target_not_clamped[OF h1 h2 h3 h4 h5, of "''str''" "[]"]
  show ?thesis .
qed

text \<open>
  Claim C8. The site list is the index of the site table without the rows that have a
  missing field: exactly those rows are dropped, and the identifiers that remain stand
  in the order of the table.
\<close>

theorem sitreq_of_drops_incomplete:
  "dropna_any flxsit = filter (\<lambda>r. None \<notin> set (snd r)) flxsit
   \<and> sitreq_of flxsit = map fst (filter (\<lambda>r. None \<notin> set (snd r)) flxsit)
   \<and> subseq (sitreq_of flxsit) (map fst flxsit)"
proof -
  have d: "dropna_any flxsit = filter (\<lambda>r. None \<notin> set (snd r)) flxsit"
    by (induction flxsit rule: dropna_any.induct) simp_all
  then have s: "sitreq_of flxsit = map fst (filter (\<lambda>r. None \<notin> set (snd r)) flxsit)"
    by (simp add: sitreq_of_def)
  have "subseq (filter (\<lambda>r. None \<notin> set (snd r)) flxsit) flxsit"
    by simp
  then have "subseq (sitreq_of flxsit) (map fst flxsit)"
    unfolding s by (rule subseq_map)
  with d s show ?thesis by simp
qed

theorem sitreq_of_drops_incomplete_witness:
  "sitreq_of [(''BE-Lon'', [Some (1 :: int), Some 2]), (''DE-Geb'', [None, Some 3]),
              (''AT-Neu'', [Some 4, Some 5])] = [''BE-Lon'', ''AT-Neu'']"
  using sitreq_of_drops_incomplete
    [of "[(''BE-Lon'', [Some (1 :: int), Some 2]), (''DE-Geb'', [None, Some 3]),
          (''AT-Neu'', [Some 4, Some 5])]"]
  by simp

end
